theory Spec2Isabelle
  imports Main "HOL-Library.Word"
begin

unbundle bit_operations_syntax

section \<open>JavaScript values used by the password decoders\<close>

text \<open>
  The decoders of \<^verbatim>\<open>backend/src/routes/tools.js\<close> work on JavaScript strings, which are
  sequences of 16-bit code units, and on JavaScript numbers.  Only integers and \<open>NaN\<close>
  arise in them, all far below \<open>2 ^ 53\<close>.
\<close>

type_synonym jsstring = "16 word list"

definition str :: "string \<Rightarrow> jsstring" where
  "str s = map of_char s"

datatype jsnum = NaN | Num int

text \<open>
  The values a decoder can store in the \<^verbatim>\<open>decrypted\<close> property: a string, or the
  built-in object that a property read on an object literal reaches through
  \<^verbatim>\<open>Object.prototype\<close>; \<open>JSBuiltin name\<close> is the value of
  \<^verbatim>\<open>Object.prototype[name]\<close> (the function \<^verbatim>\<open>Object\<close> for \<^verbatim>\<open>constructor\<close>, the
  prototype object itself for \<^verbatim>\<open>__proto__\<close>, a built-in method otherwise).
\<close>

datatype jsval = JSString jsstring | JSBuiltin jsstring

datatype jserror = TypeError jsstring

text \<open>
  The object literals \<^verbatim>\<open>{ success: true, decrypted }\<close> and
  \<^verbatim>\<open>{ success: false, message }\<close>: a property that is not written is absent (\<open>None\<close>).
\<close>

record result =
  success :: bool
  decrypted :: "jsval option"
  message :: "jsstring option"

definition succeeded :: "jsval \<Rightarrow> result" where
  "succeeded v = \<lparr>success = True, decrypted = Some v, message = None\<rparr>"

definition failed :: "jsstring \<Rightarrow> result" where
  "failed m = \<lparr>success = False, decrypted = None, message = Some m\<rparr>"

subsection \<open>String primitives\<close>

definition startsWith :: "jsstring \<Rightarrow> jsstring \<Rightarrow> bool" where
  "startsWith s p = (take (length p) s = p)"

text \<open>\<^verbatim>\<open>s.substring(a, b)\<close>: both indices are clamped to the length and swapped if needed.\<close>

definition substring :: "jsstring \<Rightarrow> nat \<Rightarrow> nat \<Rightarrow> jsstring" where
  "substring s a b =
     (let a' = min a (length s); b' = min b (length s)
      in take (max a' b' - min a' b') (drop (min a' b') s))"

text \<open>\<^verbatim>\<open>s.substring(n)\<close>: \<open>NaN\<close> and negative numbers count as 0.\<close>

definition substringFrom :: "jsstring \<Rightarrow> jsnum \<Rightarrow> jsstring" where
  "substringFrom s n = (case n of NaN \<Rightarrow> s | Num k \<Rightarrow> drop (nat k) s)"

text \<open>\<^verbatim>\<open>s.charAt(i)\<close>: the empty string when \<open>i\<close> is out of range.\<close>

definition charAt :: "jsstring \<Rightarrow> nat \<Rightarrow> jsstring" where
  "charAt s i = (if i < length s then [s ! i] else [])"

text \<open>\<^verbatim>\<open>s.charCodeAt(n)\<close>: the position \<open>NaN\<close> counts as 0; \<open>NaN\<close> when out of range.\<close>

definition charCodeAt :: "jsstring \<Rightarrow> jsnum \<Rightarrow> jsnum" where
  "charCodeAt s n =
     (let pos = (case n of NaN \<Rightarrow> 0 | Num k \<Rightarrow> k)
      in if 0 \<le> pos \<and> pos < int (length s) then Num (uint (s ! nat pos)) else NaN)"

text \<open>\<^verbatim>\<open>String.fromCharCode(v)\<close>: one code unit, \<open>v\<close> reduced modulo \<open>2 ^ 16\<close>.\<close>

definition fromCharCode :: "int \<Rightarrow> jsstring" where
  "fromCharCode v = [word_of_int v]"

text \<open>\<^verbatim>\<open>hay.indexOf(pat)\<close>: the first position where \<open>pat\<close> occurs, or \<open>-1\<close>.\<close>

fun indexOf :: "jsstring \<Rightarrow> jsstring \<Rightarrow> int" where
  "indexOf [] pat = (if pat = [] then 0 else -1)"
| "indexOf (c # cs) pat =
     (if startsWith (c # cs) pat then 0
      else (let r = indexOf cs pat in if r < 0 then -1 else r + 1))"

text \<open>
  \<^verbatim>\<open>s.split(sep)\<close> for a non-empty separator: the pieces between successive
  occurrences of \<open>sep\<close>, found from left to right.
\<close>

fun splitFrom :: "jsstring \<Rightarrow> jsstring \<Rightarrow> jsstring \<Rightarrow> jsstring list" where
  "splitFrom sep piece [] = [piece]"
| "splitFrom sep piece (c # cs) =
     (if startsWith (c # cs) sep then piece # splitFrom sep [] (drop (length sep - 1) cs)
      else splitFrom sep (piece @ [c]) cs)"

definition split :: "jsstring \<Rightarrow> jsstring \<Rightarrow> jsstring list" where
  "split s sep = splitFrom sep [] s"

subsection \<open>Number primitives\<close>

definition digitValue :: "16 word \<Rightarrow> int option" where
  "digitValue c =
     (let n = uint c
      in if 48 \<le> n \<and> n \<le> 57 then Some (n - 48)
         else if 97 \<le> n \<and> n \<le> 122 then Some (n - 87)
         else if 65 \<le> n \<and> n \<le> 90 then Some (n - 55)
         else None)"

definition isDigitIn :: "nat \<Rightarrow> 16 word \<Rightarrow> bool" where
  "isDigitIn radix c = (case digitValue c of None \<Rightarrow> False | Some d \<Rightarrow> d < int radix)"

definition digitOf :: "16 word \<Rightarrow> int" where
  "digitOf c = (case digitValue c of None \<Rightarrow> 0 | Some d \<Rightarrow> d)"

text \<open>
  \<^verbatim>\<open>parseInt(s, radix)\<close>: the value of the longest prefix of digits of the radix, \<open>NaN\<close>
  when that prefix is empty.  The decoder calls it only on pieces of a string that has
  passed the hexadecimal test, so white space, a sign or a \<^verbatim>\<open>0x\<close> prefix cannot occur
  and are not modelled.
\<close>

definition parseInt :: "jsstring \<Rightarrow> nat \<Rightarrow> jsnum" where
  "parseInt s radix =
     (let ds = takeWhile (isDigitIn radix) s
      in if ds = [] then NaN
         else Num (foldl (\<lambda>acc c. acc * int radix + digitOf c) 0 ds))"

definition jsAdd :: "jsnum \<Rightarrow> jsnum \<Rightarrow> jsnum" where
  "jsAdd a b = (case (a, b) of (Num x, Num y) \<Rightarrow> Num (x + y) | _ \<Rightarrow> NaN)"

text \<open>The remainder \<^verbatim>\<open>a % n\<close> of integers takes the sign of the dividend.\<close>

definition intRem :: "int \<Rightarrow> int \<Rightarrow> int" where
  "intRem a n = sgn a * (\<bar>a\<bar> mod \<bar>n\<bar>)"

definition jsRem :: "jsnum \<Rightarrow> int \<Rightarrow> jsnum" where
  "jsRem a n = (case a of NaN \<Rightarrow> NaN | Num x \<Rightarrow> if n = 0 then NaN else Num (intRem x n))"

text \<open>\<^verbatim>\<open>a ^ b\<close>: both operands are converted to 32-bit integers, \<open>NaN\<close> to 0.\<close>

definition toInt32 :: "jsnum \<Rightarrow> int" where
  "toInt32 a = (case a of NaN \<Rightarrow> 0 | Num x \<Rightarrow> sint (word_of_int x :: 32 word))"

definition jsXor :: "jsnum \<Rightarrow> jsnum \<Rightarrow> int" where
  "jsXor a b = toInt32 a XOR toInt32 b"

section \<open>Cisco Type 7\<close>

definition key :: jsstring where
  "key = str ''dsfd;kfoA,.iyewrkldJKDHSUBsgvca69834ncxv9873254k;fg87''"

definition isHexDigit :: "16 word \<Rightarrow> bool" where
  "isHexDigit c =
     (let n = uint c
      in (48 \<le> n \<and> n \<le> 57) \<or> (65 \<le> n \<and> n \<le> 70) \<or> (97 \<le> n \<and> n \<le> 102))"

text \<open>The test \<^verbatim>\<open>/^[0-9A-Fa-f]+$/\<close>: one or more characters, all hexadecimal digits.\<close>

definition hexTest :: "jsstring \<Rightarrow> bool" where
  "hexTest s = (s \<noteq> [] \<and> list_all isHexDigit s)"

text \<open>
  The loop \<^verbatim>\<open>for (let i = 2; i < encrypted.length; i += 2)\<close>.  The counter \<open>i\<close> is
  even throughout, so \<^verbatim>\<open>i / 2\<close> is the integer \<open>i div 2\<close>; \<open>plain\<close> is the
  local variable \<^verbatim>\<open>decrypted\<close>.
\<close>

function ciscoLoop :: "jsstring \<Rightarrow> jsnum \<Rightarrow> nat \<Rightarrow> jsstring \<Rightarrow> jsstring" where
  "ciscoLoop encrypted salt i plain =
     (if i < length encrypted then
        (let hexPair = substring encrypted i (i + 2);
             decimal = parseInt hexPair 16;
             keyIndex = jsRem (jsAdd (Num (int i div 2 - 1)) salt) (int (length key));
             keyChar = charCodeAt key keyIndex;
             decryptedChar = fromCharCode (jsXor decimal keyChar)
         in ciscoLoop encrypted salt (i + 2) (plain @ decryptedChar))
      else plain)"
  by pat_completeness auto
termination
  by (relation "measure (\<lambda>(encrypted, salt, i, plain). length encrypted - i)") auto

declare ciscoLoop.simps [simp del]

text \<open>
  \<^verbatim>\<open>decryptCiscoType7\<close>.  No operation of the \<^verbatim>\<open>try\<close> block throws on a string, so
  its \<^verbatim>\<open>catch\<close> branch has no counterpart here.
\<close>

definition decryptCiscoType7 :: "jsstring \<Rightarrow> result" where
  "decryptCiscoType7 encrypted =
     (if \<not> hexTest encrypted then failed (str ''Invalid Cisco Type 7 format'')
      else
        (let salt = parseInt (substring encrypted 0 2) 10
         in succeeded (JSString (ciscoLoop encrypted salt 2 []))))"

section \<open>Juniper Type 9\<close>

definition JUNIPER_ENCODING :: "int list list" where
  "JUNIPER_ENCODING =
     [[1, 4, 32], [1, 16, 32], [1, 8, 32], [1, 64], [1, 32], [1, 4, 16, 128], [1, 32, 64]]"

definition JUNIPER_KEYS :: "jsstring list" where
  "JUNIPER_KEYS =
     [str ''QzF3n6/9CAtpu0O'', str ''B1IREhcSyrleKvMW8LXx'',
      str ''7N-dVbwsY2g4oaJZGUDj'', str ''iHkq.mPf5T'']"

definition JUNIPER_KEYS_STRING :: jsstring where
  "JUNIPER_KEYS_STRING = concat JUNIPER_KEYS"

definition JUNIPER_KEYS_LENGTH :: int where
  "JUNIPER_KEYS_LENGTH = int (length JUNIPER_KEYS_STRING)"

text \<open>
  The object \<^verbatim>\<open>JUNIPER_CHARACTER_KEYS\<close>, filled by the two nested loops: the property
  named by each character of the substring \<open>idx\<close> is set to \<open>3 - idx\<close>.
\<close>

definition JUNIPER_CHARACTER_KEYS :: "jsstring \<rightharpoonup> int" where
  "JUNIPER_CHARACTER_KEYS =
     fold (\<lambda>idx obj.
        (let junKey = JUNIPER_KEYS ! idx
         in fold (\<lambda>j obj. obj(charAt junKey j \<mapsto> 3 - int idx)) [0..<length junKey] obj))
       [0..<length JUNIPER_KEYS] Map.empty"

text \<open>
  One round of the inner \<^verbatim>\<open>for\<close> loop over the characters of the nibble.  The state is
  the pair of \<^verbatim>\<open>value\<close> and \<^verbatim>\<open>previousChar\<close>.  The index is below the length of the
  nibble, which is at most the length of the row \<^verbatim>\<open>decode\<close>.
\<close>

definition nibbleStep :: "int list \<Rightarrow> jsstring \<Rightarrow> nat \<Rightarrow> int \<times> jsstring \<Rightarrow> int \<times> jsstring" where
  "nibbleStep decode nibble index st =
     (case st of (val, previousChar) \<Rightarrow>
        (let char = charAt nibble index;
             prevCharIndex = indexOf JUNIPER_KEYS_STRING previousChar;
             charIndex = indexOf JUNIPER_KEYS_STRING char;
             gap = charIndex - prevCharIndex;
             gap = intRem (intRem gap JUNIPER_KEYS_LENGTH + JUNIPER_KEYS_LENGTH) JUNIPER_KEYS_LENGTH;
             gap = gap - 1
         in (val + gap * (decode ! index), char)))"

definition nibbleLoop :: "int list \<Rightarrow> jsstring \<Rightarrow> jsstring \<Rightarrow> int \<times> jsstring" where
  "nibbleLoop decode nibble previousChar =
     fold (nibbleStep decode nibble) [0..<length nibble] (0, previousChar)"

text \<open>The loop \<^verbatim>\<open>while (strippedPasswordCharacters.length > 0)\<close>.\<close>

function juniperLoop :: "jsstring \<Rightarrow> jsstring \<Rightarrow> jsstring \<Rightarrow> jsstring" where
  "juniperLoop strippedPasswordCharacters previousChar decryptedPassword =
     (if length strippedPasswordCharacters > 0 then
        (let decode = JUNIPER_ENCODING ! (length decryptedPassword mod length JUNIPER_ENCODING);
             nibble = substring strippedPasswordCharacters 0 (length decode);
             remaining = substringFrom strippedPasswordCharacters (Num (int (length decode)));
             st = nibbleLoop decode nibble previousChar
         in juniperLoop remaining (snd st) (decryptedPassword @ fromCharCode (fst st)))
      else decryptedPassword)"
  by pat_completeness auto
termination
proof (relation "measure (\<lambda>(s, p, d). length s)")
  show "wf (measure (\<lambda>(s, p, d). length s))" by simp
next
  fix strippedPasswordCharacters previousChar :: jsstring
    and decryptedPassword :: jsstring and decode nibble remaining st
  assume nonempty: "0 < length strippedPasswordCharacters"
    and row: "decode = JUNIPER_ENCODING ! (length decryptedPassword mod length JUNIPER_ENCODING)"
    and rest: "remaining = substringFrom strippedPasswordCharacters (Num (int (length decode)))"
  have "length decryptedPassword mod 7 < 7" by simp
  then have "length decryptedPassword mod 7 \<in> {0, 1, 2, 3, 4, 5, 6}" by auto
  then have "0 < length decode"
    unfolding row by (auto simp: JUNIPER_ENCODING_def)
  with nonempty rest
  show "((remaining, snd st, decryptedPassword @ fromCharCode (fst st)),
         (strippedPasswordCharacters, previousChar, decryptedPassword))
        \<in> measure (\<lambda>(s, p, d). length s)"
    by (simp add: substringFrom_def)
qed

declare juniperLoop.simps [simp del]

text \<open>
  The body of the \<^verbatim>\<open>try\<close> block.  \<^verbatim>\<open>split("$9$")[1]\<close> is \<^verbatim>\<open>undefined\<close> when the
  separator does not occur, and calling \<^verbatim>\<open>charAt\<close> on it throws a \<^verbatim>\<open>TypeError\<close>.  The
  first character is a string of at most one code unit; no property of
  \<^verbatim>\<open>Object.prototype\<close> has so short a name, so the lookup in
  \<^verbatim>\<open>JUNIPER_CHARACTER_KEYS\<close> yields the stored number or \<^verbatim>\<open>undefined\<close>, and
  \<^verbatim>\<open>undefined + 1\<close> is \<open>NaN\<close>.
\<close>

definition juniperBody :: "jsstring \<Rightarrow> jserror + jsstring" where
  "juniperBody encryptedPassword =
     (case split encryptedPassword (str ''$9$'') of
        _ # passwordCharacters # _ \<Rightarrow>
          (let firstCharacter = charAt passwordCharacters 0;
               skipChars = (case JUNIPER_CHARACTER_KEYS firstCharacter of
                              None \<Rightarrow> NaN | Some family \<Rightarrow> Num (family + 1));
               strippedPasswordCharacters = substringFrom passwordCharacters skipChars
           in Inr (juniperLoop strippedPasswordCharacters firstCharacter []))
      | _ \<Rightarrow> Inl (TypeError (str ''Cannot read properties of undefined'')))"

definition decryptJuniperType9 :: "jsstring \<Rightarrow> result" where
  "decryptJuniperType9 encryptedPassword =
     (if \<not> startsWith encryptedPassword (str ''$9$'')
      then failed (str ''Not a valid Juniper Type 9 password'')
      else
        (case juniperBody encryptedPassword of
           Inr decryptedPassword \<Rightarrow> succeeded (JSString decryptedPassword)
         | Inl (TypeError text) \<Rightarrow> failed (str ''Decryption failed: '' @ text)))"

section \<open>Library functions of the runtime\<close>

text \<open>
  Two functions of the JavaScript runtime are not part of the repository and are taken as
  parameters:
  \<^item> \<open>toLowerCaseUnicode\<close> is \<^verbatim>\<open>String.prototype.toLowerCase\<close> on strings that contain a
    code unit outside ASCII, where the result depends on the Unicode tables;
  \<^item> \<open>bufferBase64Utf8\<close> is \<^verbatim>\<open>Buffer.from(encoded, 'base64').toString('utf8')\<close>, which
    returns a string or throws.
\<close>

record runtime =
  toLowerCaseUnicode :: "jsstring \<Rightarrow> jsstring"
  bufferBase64Utf8 :: "jsstring \<Rightarrow> jserror + jsstring"

definition asciiLower :: "16 word \<Rightarrow> 16 word" where
  "asciiLower c = (if 65 \<le> uint c \<and> uint c \<le> 90 then c + 32 else c)"

definition toLowerCase :: "runtime \<Rightarrow> jsstring \<Rightarrow> jsstring" where
  "toLowerCase rt s =
     (if list_all (\<lambda>c. uint c < 128) s then map asciiLower s else toLowerCaseUnicode rt s)"

text \<open>
  A runtime on which examples are evaluated.  The examples use ASCII strings and decoders
  other than Base64, so that its two components are never called in them.
\<close>

definition exampleRuntime :: runtime where
  "exampleRuntime = \<lparr>toLowerCaseUnicode = map asciiLower, bufferBase64Utf8 = (\<lambda>encoded. Inr [])\<rparr>"

section \<open>Base64\<close>

definition decodeBase64 :: "runtime \<Rightarrow> jsstring \<Rightarrow> result" where
  "decodeBase64 rt encoded =
     (case bufferBase64Utf8 rt encoded of
        Inr decoded \<Rightarrow> succeeded (JSString decoded)
      | Inl error \<Rightarrow> failed (str ''Invalid Base64 format''))"

section \<open>MD5 lookup\<close>

definition knownHashes :: "(jsstring \<times> jsstring) list" where
  "knownHashes =
     [(str ''5f4dcc3b5aa765d61d8327deb882cf99'', str ''password''),
      (str ''e10adc3949ba59abbe56e057f20f883e'', str ''123456''),
      (str ''25d55ad283aa400af464c76d713c07ad'', str ''12345678''),
      (str ''5eb63bbbe01eeed093cb22bb8f5acdc3'', str ''hello''),
      (str ''098f6bcd4621d373cade4e832627b4f6'', str ''test''),
      (str ''827ccb0eea8a706c4c34a16891f84e7b'', str ''12345'')]"

text \<open>The names of the properties that every object literal inherits from \<^verbatim>\<open>Object.prototype\<close>.\<close>

definition objectPrototypeNames :: "jsstring list" where
  "objectPrototypeNames =
     [str ''constructor'', str ''__proto__'', str ''hasOwnProperty'', str ''isPrototypeOf'',
      str ''propertyIsEnumerable'', str ''toLocaleString'', str ''toString'', str ''valueOf'',
      str ''__defineGetter__'', str ''__defineSetter__'', str ''__lookupGetter__'',
      str ''__lookupSetter__'']"

text \<open>
  The property read \<^verbatim>\<open>obj[name]\<close> on an object literal with the given own properties: an own
  property first, then the prototype; \<open>None\<close> is \<^verbatim>\<open>undefined\<close>.
\<close>

definition getProperty :: "(jsstring \<times> jsstring) list \<Rightarrow> jsstring \<Rightarrow> jsval option" where
  "getProperty own name =
     (case map_of own name of
        Some v \<Rightarrow> Some (JSString v)
      | None \<Rightarrow> if name \<in> set objectPrototypeNames then Some (JSBuiltin name) else None)"

text \<open>The conversion to a boolean in \<^verbatim>\<open>if (...)\<close>.\<close>

definition truthy :: "jsval option \<Rightarrow> bool" where
  "truthy v = (case v of None \<Rightarrow> False | Some (JSString s) \<Rightarrow> s \<noteq> [] | Some (JSBuiltin name) \<Rightarrow> True)"

definition checkMD5Hash :: "runtime \<Rightarrow> jsstring \<Rightarrow> result" where
  "checkMD5Hash rt hash =
     (if truthy (getProperty knownHashes (toLowerCase rt hash))
      then \<lparr>success = True, decrypted = getProperty knownHashes (toLowerCase rt hash),
             message = None\<rparr>
      else failed (str ''Hash not found in known passwords database''))"

section \<open>The dispatcher\<close>

text \<open>The \<^verbatim>\<open>switch (vendorType)\<close> of the route \<^verbatim>\<open>/password-decrypt\<close>.\<close>

definition passwordDecrypt :: "runtime \<Rightarrow> jsstring \<Rightarrow> jsstring \<Rightarrow> result" where
  "passwordDecrypt rt vendorType encryptedPassword =
     (if vendorType = str ''cisco-type7'' then decryptCiscoType7 encryptedPassword
      else if vendorType = str ''juniper-type9'' then decryptJuniperType9 encryptedPassword
      else if vendorType = str ''base64'' then decodeBase64 rt encryptedPassword
      else if vendorType = str ''generic-md5'' then checkMD5Hash rt encryptedPassword
      else failed (str ''Unsupported encryption type''))"

subsection \<open>The dispatcher with exceptions\<close>

text \<open>
  The same code with what it throws made explicit: a computation returns \<open>Inr\<close> its value
  or \<open>Inl\<close> the error it throws.  On a string, two operations of the decoders can throw:
  the call of \<^verbatim>\<open>charAt\<close> on a missing second piece in the Juniper decoder, and the
  Base64 library call.  \<open>tryCatch body handler\<close> is
  \<^verbatim>\<open>try { body } catch (error) { handler }\<close>, and \<open>errorMessage\<close> is \<^verbatim>\<open>error.message\<close>.
\<close>

definition tryCatch :: "(jserror + 'a) \<Rightarrow> (jserror \<Rightarrow> jserror + 'a) \<Rightarrow> jserror + 'a" where
  "tryCatch body handler = (case body of Inl error \<Rightarrow> handler error | Inr v \<Rightarrow> Inr v)"

fun errorMessage :: "jserror \<Rightarrow> jsstring" where
  "errorMessage (TypeError text) = text"

definition decryptCiscoType7E :: "jsstring \<Rightarrow> jserror + result" where
  "decryptCiscoType7E encrypted =
     (if \<not> hexTest encrypted then Inr (failed (str ''Invalid Cisco Type 7 format''))
      else
        tryCatch
          (let salt = parseInt (substring encrypted 0 2) 10
           in Inr (succeeded (JSString (ciscoLoop encrypted salt 2 []))))
          (\<lambda>error. Inr (failed (str ''Decryption failed: '' @ errorMessage error))))"

definition decryptJuniperType9E :: "jsstring \<Rightarrow> jserror + result" where
  "decryptJuniperType9E encryptedPassword =
     (if \<not> startsWith encryptedPassword (str ''$9$'')
      then Inr (failed (str ''Not a valid Juniper Type 9 password''))
      else
        tryCatch
          (case juniperBody encryptedPassword of
             Inl error \<Rightarrow> Inl error
           | Inr decryptedPassword \<Rightarrow> Inr (succeeded (JSString decryptedPassword)))
          (\<lambda>error. Inr (failed (str ''Decryption failed: '' @ errorMessage error))))"

definition decodeBase64E :: "runtime \<Rightarrow> jsstring \<Rightarrow> jserror + result" where
  "decodeBase64E rt encoded =
     tryCatch
       (case bufferBase64Utf8 rt encoded of
          Inl error \<Rightarrow> Inl error
        | Inr decoded \<Rightarrow> Inr (succeeded (JSString decoded)))
       (\<lambda>error. Inr (failed (str ''Invalid Base64 format'')))"

text \<open>\<^verbatim>\<open>checkMD5Hash\<close> has no \<^verbatim>\<open>try\<close> block, and none of its operations throws on a string.\<close>

definition checkMD5HashE :: "runtime \<Rightarrow> jsstring \<Rightarrow> jserror + result" where
  "checkMD5HashE rt hash = Inr (checkMD5Hash rt hash)"

definition passwordDecryptE :: "runtime \<Rightarrow> jsstring \<Rightarrow> jsstring \<Rightarrow> jserror + result" where
  "passwordDecryptE rt vendorType encryptedPassword =
     (if vendorType = str ''cisco-type7'' then decryptCiscoType7E encryptedPassword
      else if vendorType = str ''juniper-type9'' then decryptJuniperType9E encryptedPassword
      else if vendorType = str ''base64'' then decodeBase64E rt encryptedPassword
      else if vendorType = str ''generic-md5'' then checkMD5HashE rt encryptedPassword
      else Inr (failed (str ''Unsupported encryption type'')))"

section \<open>Reference definitions that follow the specification\<close>

subsection \<open>Cisco Type 7\<close>

text \<open>The value of a hexadecimal digit, and the byte value of a pair of them.\<close>

definition hexDigitValue :: "16 word \<Rightarrow> int" where
  "hexDigitValue c =
     (if uint c \<le> 57 then uint c - 48
      else if uint c \<le> 70 then uint c - 55 else uint c - 87)"

definition isDecimalDigit :: "16 word \<Rightarrow> bool" where
  "isDecimalDigit c = (48 \<le> uint c \<and> uint c \<le> 57)"

text \<open>The salt: the decimal number written by the first two characters.\<close>

definition saltValue :: "jsstring \<Rightarrow> int" where
  "saltValue e = 10 * (uint (e ! 0) - 48) + (uint (e ! 1) - 48)"

text \<open>
  The plaintext character for the pair with index \<open>i\<close> (0 for the first pair after the
  salt): \<open>chr (b XOR code (key[(i + s) mod 53]))\<close>, where \<open>b\<close> is the byte value of the pair.
\<close>

definition ciscoChar :: "jsstring \<Rightarrow> int \<Rightarrow> nat \<Rightarrow> 16 word" where
  "ciscoChar e s i =
     word_of_int ((16 * hexDigitValue (e ! (2 * i + 2)) + hexDigitValue (e ! (2 * i + 3)))
                  XOR uint (key ! nat ((int i + s) mod 53)))"

text \<open>
  The symmetric encoder: the salt in two decimal digits, then for each plaintext character
  at index \<open>i\<close> the two hexadecimal digits of \<open>code (char) XOR code (key[(i + s) mod 53])\<close>.
\<close>

definition hexDigitChar :: "int \<Rightarrow> 16 word" where
  "hexDigitChar d = word_of_int (if d < 10 then 48 + d else 55 + d)"

definition twoHexDigits :: "int \<Rightarrow> jsstring" where
  "twoHexDigits b = [hexDigitChar (b div 16), hexDigitChar (b mod 16)]"

definition decimalDigitChar :: "int \<Rightarrow> 16 word" where
  "decimalDigitChar d = word_of_int (48 + d)"

definition twoDecimalDigits :: "nat \<Rightarrow> jsstring" where
  "twoDecimalDigits s = [decimalDigitChar (int s div 10), decimalDigitChar (int s mod 10)]"

definition encodeCiscoType7 :: "nat \<Rightarrow> jsstring \<Rightarrow> jsstring" where
  "encodeCiscoType7 s plaintext =
     twoDecimalDigits s @
     concat (map (\<lambda>i. twoHexDigits (uint (plaintext ! i) XOR uint (key ! ((i + s) mod 53))))
               [0 ..< length plaintext])"

subsection \<open>Juniper Type 9\<close>

text \<open>The position of a character in a string: the index of its first occurrence.\<close>

fun position :: "16 word \<Rightarrow> jsstring \<Rightarrow> nat" where
  "position c [] = 0"
| "position c (x # xs) = (if x = c then 0 else Suc (position c xs))"

text \<open>
  The family of a character: 3 minus the index of the substring of \<open>JUNIPER_KEYS\<close> that
  contains it.
\<close>

definition juniperFamily :: "16 word \<Rightarrow> int" where
  "juniperFamily c =
     (if c \<in> set (JUNIPER_KEYS ! 0) then 3 - 0
      else if c \<in> set (JUNIPER_KEYS ! 1) then 3 - 1
      else if c \<in> set (JUNIPER_KEYS ! 2) then 3 - 2
      else 3 - 3)"

text \<open>The gap \<open>((pos c - pos prev) mod 65) - 1\<close>, with the remainder in \<open>[0, 65)\<close>.\<close>

definition juniperGap :: "16 word \<Rightarrow> 16 word \<Rightarrow> int" where
  "juniperGap prev c =
     (int (position c JUNIPER_KEYS_STRING) - int (position prev JUNIPER_KEYS_STRING)) mod 65 - 1"

text \<open>
  The weighted sum of one row: \<open>weight\<^sub>k * gap (prev\<^sub>k, c\<^sub>k)\<close> over the consumed characters,
  each of which becomes the previous character of the next.
\<close>

fun rowSum :: "int list \<Rightarrow> 16 word \<Rightarrow> jsstring \<Rightarrow> int" where
  "rowSum (w # ws) prev (c # cs) = w * juniperGap prev c + rowSum ws c cs"
| "rowSum ws prev cs = 0"

text \<open>
  The sums of the successive rows, the row with index \<open>n mod 7\<close> for the output character
  with index \<open>n\<close>; \<open>None\<close> when the characters do not align with the rows exactly.
\<close>

function rowSums :: "nat \<Rightarrow> 16 word \<Rightarrow> jsstring \<Rightarrow> int list option" where
  "rowSums n prev cs =
     (if cs = [] then Some []
      else
        (let row = JUNIPER_ENCODING ! (n mod 7)
         in if length cs < length row \<or> row = [] then None
            else
              (case rowSums (Suc n) (last (take (length row) cs)) (drop (length row) cs) of
                 None \<Rightarrow> None
               | Some sums \<Rightarrow> Some (rowSum row prev (take (length row) cs) # sums))))"
  by pat_completeness auto
termination
  by (relation "measure (\<lambda>(n, prev, cs). length cs)") auto

declare rowSums.simps [simp del]

text \<open>
  The reference algorithm on the characters after the prefix: the skip count is the family of
  the first character plus 1, and the first character is the first previous character.
\<close>

definition juniperReference :: "jsstring \<Rightarrow> int list option" where
  "juniperReference rest =
     (case rest of
        [] \<Rightarrow> None
      | c # _ \<Rightarrow> rowSums 0 c (drop (nat (juniperFamily c + 1)) rest))"


section \<open>Properties of the Cisco Type 7 decoder\<close>

lemma digitValue_hex:
  "isHexDigit c \<Longrightarrow> digitValue c = Some (hexDigitValue c)"
  unfolding isHexDigit_def digitValue_def hexDigitValue_def Let_def
  by auto

lemma hexDigitValue_range:
  "isHexDigit c \<Longrightarrow> 0 \<le> hexDigitValue c \<and> hexDigitValue c < 16"
  unfolding isHexDigit_def hexDigitValue_def Let_def
  by auto

lemma digitOf_hex: "isHexDigit c \<Longrightarrow> digitOf c = hexDigitValue c"
  using hexDigitValue_range [of c] by (simp add: digitOf_def digitValue_hex)

lemma isDigitIn_hex: "isHexDigit c \<Longrightarrow> isDigitIn 16 c"
  using hexDigitValue_range [of c] by (simp add: isDigitIn_def digitValue_hex)

lemma parseInt_hex_pair:
  "isHexDigit a \<Longrightarrow> isHexDigit b \<Longrightarrow> parseInt [a, b] 16 = Num (16 * hexDigitValue a + hexDigitValue b)"
  by (simp add: parseInt_def isDigitIn_hex digitOf_hex)

lemma decimal_is_hex: "isDecimalDigit c \<Longrightarrow> isHexDigit c"
  by (simp add: isDecimalDigit_def isHexDigit_def)

lemma isDigitIn_decimal: "isDecimalDigit c \<Longrightarrow> isDigitIn 10 c"
  unfolding isDecimalDigit_def isDigitIn_def digitValue_def Let_def
  by auto

lemma digitOf_decimal: "isDecimalDigit c \<Longrightarrow> digitOf c = uint c - 48"
  unfolding isDecimalDigit_def digitOf_def digitValue_def Let_def
  by auto

lemma parseInt_decimal_pair:
  "isDecimalDigit a \<Longrightarrow> isDecimalDigit b \<Longrightarrow>
   parseInt [a, b] 10 = Num (10 * (uint a - 48) + (uint b - 48))"
  by (simp add: parseInt_def isDigitIn_decimal digitOf_decimal)

lemma toInt32_small: "0 \<le> x \<Longrightarrow> x < 2 ^ 31 \<Longrightarrow> toInt32 (Num x) = x"
  unfolding toInt32_def
  by (simp add: sint_sbintrunc' signed_take_bit_int_eq_self)

lemma jsXor_small:
  assumes "0 \<le> x" "x < 2 ^ 16" "0 \<le> y" "y < 2 ^ 16"
  shows "jsXor (Num x) (Num y) = x XOR y"
  using assms by (simp add: jsXor_def toInt32_small)

lemma substring_pair:
  assumes "i + 2 \<le> length s"
  shows "substring s i (i + 2) = [s ! i, s ! (i + 1)]"
proof -
  have a: "drop i s = s ! i # drop (Suc i) s"
    using assms by (simp add: Cons_nth_drop_Suc)
  have b: "drop (Suc i) s = s ! (Suc i) # drop (Suc (Suc i)) s"
    using assms by (simp add: Cons_nth_drop_Suc)
  have "take 2 (drop i s) = [s ! i, s ! (i + 1)]"
    by (simp add: a b numeral_2_eq_2)
  then show ?thesis
    using assms by (simp add: substring_def min_def max_def)
qed

lemma substring_first_two:
  assumes "2 \<le> length s"
  shows "substring s 0 2 = [s ! 0, s ! 1]"
proof -
  obtain a b t where "s = a # b # t"
    using assms by (cases s; cases "tl s") auto
  then show ?thesis by (simp add: substring_def)
qed

lemma length_key: "length key = 53"
  by (simp add: key_def str_def)

lemma intRem_nonneg: "0 \<le> a \<Longrightarrow> 0 < n \<Longrightarrow> intRem a n = a mod n"
  by (cases "a = 0") (simp_all add: intRem_def)

lemma ciscoLoop_step:
  assumes hex: "list_all isHexDigit e" and len: "i + 2 \<le> length e" and s: "0 \<le> s"
    and i: "even i" "2 \<le> i"
  shows "ciscoLoop e (Num s) i plain =
         ciscoLoop e (Num s) (i + 2) (plain @ [ciscoChar e s (i div 2 - 1)])"
proof -
  define j where "j = i div 2 - 1"
  have ij: "i = 2 * j + 2" using i by (auto simp: j_def elim!: evenE)
  have h1: "isHexDigit (e ! i)" and h2: "isHexDigit (e ! (i + 1))"
    using hex len by (simp_all add: list_all_length)
  let ?b = "16 * hexDigitValue (e ! i) + hexDigitValue (e ! (i + 1))"
  have b: "0 \<le> ?b" "?b < 2 ^ 16"
    using hexDigitValue_range [OF h1] hexDigitValue_range [OF h2] by auto
  let ?k = "(int j + s) mod 53"
  have k: "0 \<le> ?k" "?k < 53" by simp_all
  have idx: "jsRem (jsAdd (Num (int i div 2 - 1)) (Num s)) (int (length key)) = Num ?k"
    using s by (simp add: jsRem_def jsAdd_def length_key intRem_nonneg ij)
  have code: "charCodeAt key (Num ?k) = Num (uint (key ! nat ?k))"
    using k by (simp add: charCodeAt_def length_key)
  have kc: "uint (key ! nat ?k) < 2 ^ 16"
    using uint_lt2p [of "key ! nat ?k"] by simp
  have x: "jsXor (Num ?b) (Num (uint (key ! nat ?k))) = ?b XOR uint (key ! nat ?k)"
    using b kc by (simp add: jsXor_small)
  have lt: "i < length e" using len by simp
  have "ciscoLoop e (Num s) i plain =
        ciscoLoop e (Num s) (i + 2) (plain @ fromCharCode (jsXor (parseInt (substring e i (i + 2)) 16)
          (charCodeAt key (jsRem (jsAdd (Num (int i div 2 - 1)) (Num s)) (int (length key))))))"
    by (subst ciscoLoop.simps) (simp only: lt if_True Let_def)
  also have "\<dots> = ciscoLoop e (Num s) (i + 2) (plain @ [word_of_int (?b XOR uint (key ! nat ?k))])"
    by (simp only: substring_pair [OF len] parseInt_hex_pair [OF h1 h2] idx code x fromCharCode_def)
  also have "[word_of_int (?b XOR uint (key ! nat ?k))] = [ciscoChar e s (i div 2 - 1)]"
    by (simp add: ciscoChar_def ij numeral_3_eq_3)
  finally show ?thesis .
qed

lemma ciscoLoop_pairs:
  assumes hex: "list_all isHexDigit e" and ev: "even (length e)" and s: "0 \<le> s"
  shows "even i \<Longrightarrow> 2 \<le> i \<Longrightarrow> i \<le> length e \<Longrightarrow>
         ciscoLoop e (Num s) i plain =
         plain @ map (ciscoChar e s) [i div 2 - 1 ..< length e div 2 - 1]"
proof (induction "length e - i" arbitrary: i plain rule: less_induct)
  case less
  show ?case
  proof (cases "i < length e")
    case False
    with less.prems have "i = length e" by simp
    then show ?thesis by (subst ciscoLoop.simps) simp
  next
    case True
    with less.prems ev have len: "i + 2 \<le> length e"
      by (auto elim!: evenE)
    have lt: "i div 2 - 1 < length e div 2 - 1"
      using len less.prems ev by (auto elim!: evenE)
    have nxt: "(i + 2) div 2 - 1 = Suc (i div 2 - 1)"
      using less.prems by (auto elim!: evenE)
    have "ciscoLoop e (Num s) i plain =
          ciscoLoop e (Num s) (i + 2) (plain @ [ciscoChar e s (i div 2 - 1)])"
      using hex len s less.prems(1,2) by (rule ciscoLoop_step)
    also have "\<dots> = (plain @ [ciscoChar e s (i div 2 - 1)]) @
                     map (ciscoChar e s) [(i + 2) div 2 - 1 ..< length e div 2 - 1]"
      using less.prems len True by (intro less.hyps) auto
    also have "\<dots> = plain @ map (ciscoChar e s) [i div 2 - 1 ..< length e div 2 - 1]"
      unfolding nxt upt_conv_Cons [OF lt] by simp
    finally show ?thesis .
  qed
qed

lemma decryptCiscoType7_wellformed:
  assumes hex: "list_all isHexDigit e" and ev: "even (length e)"
    and d0: "isDecimalDigit (e ! 0)" and d1: "isDecimalDigit (e ! 1)" and ne: "e \<noteq> []"
  shows "decryptCiscoType7 e =
         succeeded (JSString (map (ciscoChar e (saltValue e)) [0 ..< length e div 2 - 1]))"
proof -
  have len: "0 + 2 \<le> length e"
    using ev ne by (cases e; cases "tl e") auto
  have sub: "substring e 0 2 = [e ! 0, e ! 1]"
    using len by (simp add: substring_first_two)
  have salt: "parseInt (substring e 0 2) 10 = Num (saltValue e)"
    by (simp only: sub parseInt_decimal_pair [OF d0 d1] saltValue_def)
  have s: "0 \<le> saltValue e"
    using d0 d1 by (simp add: saltValue_def isDecimalDigit_def)
  have "ciscoLoop e (Num (saltValue e)) 2 [] =
        [] @ map (ciscoChar e (saltValue e)) [2 div 2 - 1 ..< length e div 2 - 1]"
    using len by (intro ciscoLoop_pairs [OF hex ev s]) auto
  then show ?thesis
    using hex ne by (simp add: decryptCiscoType7_def hexTest_def salt)
qed

lemma uint_small_word: "0 \<le> d \<Longrightarrow> d < 65536 \<Longrightarrow> uint (word_of_int d :: 16 word) = d"
  by (simp add: uint_word_of_int)

lemma uint_hexDigitChar:
  "0 \<le> d \<Longrightarrow> d < 16 \<Longrightarrow> uint (hexDigitChar d) = (if d < 10 then 48 + d else 55 + d)"
  by (simp add: hexDigitChar_def uint_small_word)

lemma isHexDigit_hexDigitChar: "0 \<le> d \<Longrightarrow> d < 16 \<Longrightarrow> isHexDigit (hexDigitChar d)"
  by (simp add: isHexDigit_def uint_hexDigitChar)

lemma hexDigitValue_hexDigitChar: "0 \<le> d \<Longrightarrow> d < 16 \<Longrightarrow> hexDigitValue (hexDigitChar d) = d"
  by (simp add: hexDigitValue_def uint_hexDigitChar)

lemma key_codes: "\<forall>c \<in> set key. uint c < 2 ^ 8"
  by (simp add: key_def str_def)

lemma length_concat_pairs:
  "(\<And>x. length (f x) = 2) \<Longrightarrow> length (concat (map f xs)) = 2 * length xs"
  by (induction xs) simp_all

lemma nth_concat_pairs:
  assumes "\<And>x. length (f x) = 2"
  shows "i < length xs \<Longrightarrow>
         concat (map f xs) ! (2 * i) = f (xs ! i) ! 0 \<and>
         concat (map f xs) ! (2 * i + 1) = f (xs ! i) ! 1"
proof (induction xs arbitrary: i)
  case Nil
  then show ?case by simp
next
  case (Cons x xs)
  obtain a b where fx: "f x = [a, b]"
    using assms [of x] by (cases "f x"; cases "tl (f x)") auto
  show ?case
  proof (cases i)
    case 0
    then show ?thesis by (simp add: fx)
  next
    case (Suc j)
    with Cons.prems have "j < length xs" by simp
    from Cons.IH [OF this] show ?thesis by (simp add: fx Suc)
  qed
qed

lemma uint_decimalDigitChar: "0 \<le> d \<Longrightarrow> d < 10 \<Longrightarrow> uint (decimalDigitChar d) = 48 + d"
  unfolding decimalDigitChar_def by (intro uint_small_word) auto

lemma saltValue_twoDecimalDigits:
  assumes "s < 100"
  shows "saltValue (twoDecimalDigits s @ rest) = int s"
    and "isDecimalDigit ((twoDecimalDigits s @ rest) ! 0)"
    and "isDecimalDigit ((twoDecimalDigits s @ rest) ! 1)"
proof -
  have a: "0 \<le> int s div 10" "int s div 10 < 10" using assms by auto
  have b: "0 \<le> int s mod 10" "int s mod 10 < 10" by auto
  note ua = uint_decimalDigitChar [OF a]
  note ub = uint_decimalDigitChar [OF b]
  show "saltValue (twoDecimalDigits s @ rest) = int s"
    by (simp add: saltValue_def twoDecimalDigits_def ua ub)
  show "isDecimalDigit ((twoDecimalDigits s @ rest) ! 0)"
    using a by (simp add: twoDecimalDigits_def isDecimalDigit_def ua)
  show "isDecimalDigit ((twoDecimalDigits s @ rest) ! 1)"
    using b by (simp add: twoDecimalDigits_def isDecimalDigit_def ub)
qed


lemma decryptCiscoType7_hex_succeeds:
  "hexTest e \<Longrightarrow> \<exists>p. decryptCiscoType7 e = succeeded (JSString p)"
  by (auto simp: decryptCiscoType7_def)

text \<open>
  C2.  On an even-length string of hexadecimal digits whose first two characters are decimal
  digits writing the salt \<open>s\<close>, the decoder succeeds, and the character with index \<open>i\<close> of
  its plaintext is \<open>chr (b XOR code (key[(i + s) mod 53]))\<close> for the byte value \<open>b\<close> of the
  pair with index \<open>i\<close> after the salt; the key has 53 characters, and
  \<^verbatim>\<open>094F471A1A0A\<close> decodes to \<^verbatim>\<open>cisco\<close> under the scheme \<^verbatim>\<open>cisco-type7\<close>.
\<close>

theorem cisco_type7_decodes_by_salted_xor:
  assumes "list_all isHexDigit e" and "even (length e)" and "e \<noteq> []"
    and "isDecimalDigit (e ! 0)" and "isDecimalDigit (e ! 1)"
  shows "decryptCiscoType7 e =
           succeeded (JSString (map (ciscoChar e (saltValue e)) [0 ..< length e div 2 - 1])) \<and>
         length key = 53 \<and>
         passwordDecrypt rt (str ''cisco-type7'') (str ''094F471A1A0A'') =
           succeeded (JSString (str ''cisco''))"
proof -
  have "passwordDecrypt rt (str ''cisco-type7'') (str ''094F471A1A0A'') =
          decryptCiscoType7 (str ''094F471A1A0A'')"
    by (simp add: passwordDecrypt_def)
  also have "\<dots> = succeeded (JSString (str ''cisco''))"
    by code_simp
  finally show ?thesis
    using decryptCiscoType7_wellformed [OF assms(1,2,4,5,3)] by (simp add: length_key)
qed

theorem cisco_type7_decodes_by_salted_xor_witness:
  "list_all isHexDigit (str ''094F471A1A0A'') \<and> even (length (str ''094F471A1A0A'')) \<and>
   str ''094F471A1A0A'' \<noteq> [] \<and>
   isDecimalDigit (str ''094F471A1A0A'' ! 0) \<and> isDecimalDigit (str ''094F471A1A0A'' ! 1) \<and>
   saltValue (str ''094F471A1A0A'') = 9 \<and>
   decryptCiscoType7 (str ''094F471A1A0A'') =
     succeeded (JSString (map (ciscoChar (str ''094F471A1A0A'') 9) [0 ..< 5]))"
proof -
  have h: "list_all isHexDigit (str ''094F471A1A0A'')" "even (length (str ''094F471A1A0A''))"
    "str ''094F471A1A0A'' \<noteq> []"
    "isDecimalDigit (str ''094F471A1A0A'' ! 0)" "isDecimalDigit (str ''094F471A1A0A'' ! 1)"
    by (simp_all add: str_def isHexDigit_def isDecimalDigit_def)
  have s: "saltValue (str ''094F471A1A0A'') = 9"
    by (simp add: saltValue_def str_def)
  have n: "length (str ''094F471A1A0A'') div 2 - 1 = 5"
    by (simp add: str_def)
  show ?thesis
    using cisco_type7_decodes_by_salted_xor [OF h, of exampleRuntime] h
    by (simp only: s n) simp
qed

text \<open>
  C3, as the code has it.  A string that is empty or has a character that is not a
  hexadecimal digit is rejected with the message \<^verbatim>\<open>Invalid Cisco Type 7 format\<close> and no
  plaintext.  The length and the first two characters are not examined.
\<close>

theorem cisco_type7_rejects_non_hex:
  assumes "e = [] \<or> (\<exists>c \<in> set e. \<not> isHexDigit c)"
  shows "decryptCiscoType7 e =
           \<lparr>success = False, decrypted = None,
            message = Some (str ''Invalid Cisco Type 7 format'')\<rparr>"
proof -
  have "\<not> hexTest e"
    using assms by (auto simp: hexTest_def list_all_iff)
  then show ?thesis
    by (simp add: decryptCiscoType7_def failed_def)
qed

theorem cisco_type7_rejects_non_hex_witness:
  "(str ''09 4F'' = [] \<or> (\<exists>c \<in> set (str ''09 4F''). \<not> isHexDigit c)) \<and>
   decryptCiscoType7 (str ''09 4F'') =
     \<lparr>success = False, decrypted = None, message = Some (str ''Invalid Cisco Type 7 format'')\<rparr>"
proof -
  have h: "str ''09 4F'' = [] \<or> (\<exists>c \<in> set (str ''09 4F''). \<not> isHexDigit c)"
    by (simp add: str_def isHexDigit_def)
  show ?thesis
    using cisco_type7_rejects_non_hex [OF h] h by simp
qed

text \<open>
  C3, as the specification has it, fails: the odd-length string \<^verbatim>\<open>094\<close> and the string
  \<^verbatim>\<open>AB12\<close>, whose first two characters are not decimal digits, are both decoded with
  success.
\<close>

theorem cisco_type7_accepts_odd_length_and_bad_salt:
  "odd (length (str ''094'')) \<and>
   decryptCiscoType7 (str ''094'') = succeeded (JSString (str ''('')) \<and>
   even (length (str ''AB12'')) \<and> list_all isHexDigit (str ''AB12'') \<and>
   \<not> isDecimalDigit (str ''AB12'' ! 0) \<and>
   decryptCiscoType7 (str ''AB12'') = succeeded (JSString (str ''v'')) \<and>
   success (succeeded (JSString (str ''v'')))"
proof -
  have "decryptCiscoType7 (str ''094'') = succeeded (JSString (str ''(''))"
    by code_simp
  moreover have "decryptCiscoType7 (str ''AB12'') = succeeded (JSString (str ''v''))"
    by code_simp
  ultimately show ?thesis
    by (simp add: str_def isHexDigit_def isDecimalDigit_def succeeded_def)
qed

text \<open>
  C8.  Encoding a plaintext of characters below 256 with a salt below 100 and decoding the
  result gives back the plaintext, with success.
\<close>

theorem cisco_type7_round_trip:
  assumes s: "s < 100" and p: "\<forall>c \<in> set plaintext. uint c < 256"
  shows "decryptCiscoType7 (encodeCiscoType7 s plaintext) =
           \<lparr>success = True, decrypted = Some (JSString plaintext), message = None\<rparr>"
proof -
  let ?x = "\<lambda>i. uint (plaintext ! i) XOR uint (key ! ((i + s) mod 53))"
  let ?f = "\<lambda>i. twoHexDigits (?x i)"
  let ?body = "concat (map ?f [0 ..< length plaintext])"
  let ?e = "encodeCiscoType7 s plaintext"
  have e: "?e = twoDecimalDigits s @ ?body" by (simp add: encodeCiscoType7_def)
  have f2: "\<And>i. length (?f i) = 2" by (simp add: twoHexDigits_def)
  have lenb: "length ?body = 2 * length plaintext"
    using length_concat_pairs [of ?f, OF f2] by simp
  have len: "length ?e = 2 + 2 * length plaintext"
    by (simp add: e lenb twoDecimalDigits_def)
  have kb: "\<And>i. uint (key ! ((i + s) mod 53)) < 2 ^ 8"
    using key_codes by (simp add: length_key)
  have xr: "0 \<le> ?x i \<and> ?x i < 2 ^ 8" if "i < length plaintext" for i
  proof -
    have "uint (plaintext ! i) < 2 ^ 8" using p that by simp
    then have "?x i < 2 ^ 8" using kb [of i] by (intro XOR_upper) simp_all
    then show ?thesis by simp
  qed
  have dr: "0 \<le> ?x i div 16 \<and> ?x i div 16 < 16 \<and> 0 \<le> ?x i mod 16 \<and> ?x i mod 16 < 16"
    if "i < length plaintext" for i
  proof -
    define x where "x = ?x i"
    have "0 \<le> x" "x < 256" using xr [OF that] by (simp_all add: x_def)
    then have "0 \<le> x div 16 \<and> x div 16 < 16 \<and> 0 \<le> x mod 16 \<and> x mod 16 < 16" by auto
    then show ?thesis by (simp only: x_def)
  qed
  have nth2: "?e ! (2 * i + 2) = hexDigitChar (?x i div 16) \<and>
              ?e ! (2 * i + 3) = hexDigitChar (?x i mod 16)" if "i < length plaintext" for i
  proof -
    have "?body ! (2 * i) = ?f ([0 ..< length plaintext] ! i) ! 0 \<and>
          ?body ! (2 * i + 1) = ?f ([0 ..< length plaintext] ! i) ! 1"
      using that by (intro nth_concat_pairs f2) simp
    moreover have "?e ! (2 * i + 2) = ?body ! (2 * i)" "?e ! (2 * i + 3) = ?body ! (2 * i + 1)"
      by (simp_all add: e nth_append twoDecimalDigits_def)
    ultimately show ?thesis using that by (simp add: twoHexDigits_def)
  qed
  have hex: "list_all isHexDigit ?e"
    unfolding list_all_length
  proof (intro allI impI)
    fix n assume n: "n < length ?e"
    show "isHexDigit (?e ! n)"
    proof (cases "n < 2")
      case True
      then have "n = 0 \<or> n = 1" by auto
      then show ?thesis
        using saltValue_twoDecimalDigits(2,3) [OF s, of ?body] by (auto simp: e decimal_is_hex)
    next
      case False
      define i where "i = (n - 2) div 2"
      have i: "i < length plaintext" using n False by (simp add: len i_def)
      have "n = 2 * i + 2 \<or> n = 2 * i + 3" using False by (simp add: i_def) presburger
      then show ?thesis
        using nth2 [OF i] dr [OF i] by (auto simp: isHexDigit_hexDigitChar)
    qed
  qed
  have ev: "even (length ?e)" by (simp add: len)
  have ne: "?e \<noteq> []" using len by auto
  have sv: "saltValue ?e = int s"
    using saltValue_twoDecimalDigits(1) [OF s] by (simp add: e)
  have d0: "isDecimalDigit (?e ! 0)" and d1: "isDecimalDigit (?e ! 1)"
    using saltValue_twoDecimalDigits(2,3) [OF s, of ?body] by (simp_all add: e)
  have ch: "ciscoChar ?e (int s) i = plaintext ! i" if "i < length plaintext" for i
  proof -
    have k: "nat ((int i + int s) mod 53) = (i + s) mod 53"
      by (simp add: nat_mod_distrib nat_add_distrib)
    have "16 * hexDigitValue (?e ! (2 * i + 2)) + hexDigitValue (?e ! (2 * i + 3)) = ?x i"
      using nth2 [OF that] dr [OF that] by (simp add: hexDigitValue_hexDigitChar)
    then have "ciscoChar ?e (int s) i = word_of_int (?x i XOR uint (key ! ((i + s) mod 53)))"
      by (simp only: ciscoChar_def k)
    also have "?x i XOR uint (key ! ((i + s) mod 53)) = uint (plaintext ! i)"
      by (simp add: xor.assoc)
    finally show ?thesis by simp
  qed
  have "map (ciscoChar ?e (saltValue ?e)) [0 ..< length ?e div 2 - 1] =
        map (\<lambda>i. plaintext ! i) [0 ..< length plaintext]"
    by (simp add: sv len ch)
  also have "\<dots> = plaintext" by (rule map_nth)
  finally show ?thesis
    using decryptCiscoType7_wellformed [OF hex ev d0 d1 ne] by (simp add: succeeded_def)
qed

theorem cisco_type7_round_trip_witness:
  "(9::nat) < 100 \<and> list_all (\<lambda>c. uint c < 256) (str ''cisco'') \<and>
   encodeCiscoType7 9 (str ''cisco'') = str ''094F471A1A0A'' \<and>
   decryptCiscoType7 (str ''094F471A1A0A'') =
     \<lparr>success = True, decrypted = Some (JSString (str ''cisco'')), message = None\<rparr>"
proof -
  have s: "(9::nat) < 100" by simp
  have p: "\<forall>c \<in> set (str ''cisco''). uint c < 256" by (simp add: str_def)
  have e: "encodeCiscoType7 9 (str ''cisco'') = str ''094F471A1A0A''"
    by code_simp
  show ?thesis
    using cisco_type7_round_trip [OF s p] s p e by (simp add: list_all_iff)
qed

section \<open>Properties of the Juniper Type 9 decoder\<close>

lemma splitFrom_no_separator:
  "c \<notin> set s \<Longrightarrow> splitFrom (c # sep) piece s = [piece @ s]"
  by (induction s arbitrary: piece) (auto simp: startsWith_def)

lemma split_juniper:
  assumes "36 \<notin> set rest"
  shows "split (str ''$9$'' @ rest) (str ''$9$'') = [[], rest]"
  using splitFrom_no_separator [of 36 rest "[57, 36]" "[]"] assms
  by (simp add: split_def str_def startsWith_def)

lemma indexOf_single:
  "indexOf hay [c] = (if c \<in> set hay then int (position c hay) else -1)"
  by (induction hay) (auto simp: startsWith_def Let_def)

lemma position_less: "c \<in> set hay \<Longrightarrow> position c hay < length hay"
  by (induction hay) auto

lemma length_JUNIPER_KEYS_STRING: "length JUNIPER_KEYS_STRING = 65"
  by (simp add: JUNIPER_KEYS_STRING_def JUNIPER_KEYS_def str_def)

lemma gap_normalised:
  assumes "- 65 < g" "g < 65"
  shows "intRem (intRem g 65 + 65) 65 = g mod 65"
proof (cases "0 \<le> g")
  case True
  with assms have "intRem g 65 = g" by (simp add: intRem_nonneg)
  then show ?thesis using True by (simp add: intRem_nonneg)
next
  case False
  with assms have a: "intRem g 65 = g" by (simp add: intRem_def sgn_if)
  have "0 \<le> g + 65" using assms by simp
  then have "intRem (g + 65) 65 = (g + 65) mod 65" by (simp add: intRem_nonneg)
  then show ?thesis by (simp add: a)
qed


lemma no_dollar: "36 \<notin> set JUNIPER_KEYS_STRING"
  by (simp add: JUNIPER_KEYS_STRING_def JUNIPER_KEYS_def str_def)

lemma fold_character_keys:
  "n \<le> length k \<Longrightarrow>
   fold (\<lambda>j obj. obj(charAt k j \<mapsto> v)) [0..<n] obj name =
   (if name \<in> (\<lambda>c. [c]) ` set (take n k) then Some v else obj name)"
proof (induction n)
  case 0
  then show ?case by simp
next
  case (Suc n)
  then have n: "n < length k" by simp
  then have c: "charAt k n = [k ! n]" by (simp add: charAt_def)
  show ?case
    using Suc.IH n by (auto simp: c take_Suc_conv_app_nth)
qed

lemma JUNIPER_CHARACTER_KEYS_apply:
  "JUNIPER_CHARACTER_KEYS [c] =
     (if c \<in> set (JUNIPER_KEYS ! 3) then Some 0
      else if c \<in> set (JUNIPER_KEYS ! 2) then Some 1
      else if c \<in> set (JUNIPER_KEYS ! 1) then Some 2
      else if c \<in> set (JUNIPER_KEYS ! 0) then Some 3
      else None)"
proof -
  have four: "[0..<length JUNIPER_KEYS] = [0, 1, 2, 3]"
    by (simp add: JUNIPER_KEYS_def upt_rec)
  have inj: "\<And>S. ([c] \<in> (\<lambda>c. [c]) ` S) = (c \<in> S)" by auto
  show ?thesis
    unfolding JUNIPER_CHARACTER_KEYS_def four
    by (simp add: Let_def fold_character_keys inj)
qed

lemma character_keys:
  "list_all (\<lambda>c. JUNIPER_CHARACTER_KEYS [c] = Some (juniperFamily c)) JUNIPER_KEYS_STRING"
  unfolding JUNIPER_CHARACTER_KEYS_apply juniperFamily_def
  by (simp add: JUNIPER_KEYS_STRING_def JUNIPER_KEYS_def str_def)

lemma substring_prefix: "substring s 0 n = take n s"
  by (simp add: substring_def min_def)

lemma length_JUNIPER_ENCODING: "length JUNIPER_ENCODING = 7"
  by (simp add: JUNIPER_ENCODING_def)

lemma nibbleStep_alphabet:
  assumes p: "p \<in> set JUNIPER_KEYS_STRING" and k: "k < length nibble"
    and c: "nibble ! k \<in> set JUNIPER_KEYS_STRING"
  shows "nibbleStep decode nibble k (v, [p]) =
         (v + juniperGap p (nibble ! k) * decode ! k, [nibble ! k])"
proof -
  let ?a = "int (position (nibble ! k) JUNIPER_KEYS_STRING)"
  let ?b = "int (position p JUNIPER_KEYS_STRING)"
  have a: "?a < 65" using position_less [OF c] by (simp add: length_JUNIPER_KEYS_STRING)
  have b: "?b < 65" using position_less [OF p] by (simp add: length_JUNIPER_KEYS_STRING)
  have g: "intRem (intRem (?a - ?b) 65 + 65) 65 = (?a - ?b) mod 65"
    using a b by (intro gap_normalised) auto
  show ?thesis
    using k p c
    by (simp add: nibbleStep_def charAt_def indexOf_single JUNIPER_KEYS_LENGTH_def
        length_JUNIPER_KEYS_STRING g juniperGap_def Let_def)
qed

lemma nibble_fold:
  assumes sub: "set nibble \<subseteq> set JUNIPER_KEYS_STRING" and len: "length nibble \<le> length decode"
  shows "k \<le> length nibble \<Longrightarrow> p \<in> set JUNIPER_KEYS_STRING \<Longrightarrow>
         fold (nibbleStep decode nibble) [k..<length nibble] (v, [p]) =
         (v + rowSum (drop k decode) p (drop k nibble), [last (p # drop k nibble)])"
proof (induction "length nibble - k" arbitrary: k v p)
  case 0
  then show ?case by simp
next
  case (Suc m)
  then have k: "k < length nibble" by simp
  then have kd: "k < length decode" using len by simp
  have c: "nibble ! k \<in> set JUNIPER_KEYS_STRING" using sub k by auto
  have dn: "drop k nibble = nibble ! k # drop (Suc k) nibble"
    using k by (simp add: Cons_nth_drop_Suc)
  have dd: "drop k decode = decode ! k # drop (Suc k) decode"
    using kd by (simp add: Cons_nth_drop_Suc)
  have m: "m = length nibble - Suc k" using Suc.hyps(2) by simp
  have "fold (nibbleStep decode nibble) [k..<length nibble] (v, [p]) =
        fold (nibbleStep decode nibble) [Suc k..<length nibble]
          (v + juniperGap p (nibble ! k) * decode ! k, [nibble ! k])"
    using k by (simp add: upt_conv_Cons nibbleStep_alphabet [OF Suc.prems(2) k c])
  also have "\<dots> = (v + juniperGap p (nibble ! k) * decode ! k +
                     rowSum (drop (Suc k) decode) (nibble ! k) (drop (Suc k) nibble),
                   [last (nibble ! k # drop (Suc k) nibble)])"
    using k by (intro Suc.hyps(1) [OF m] c) simp
  finally show ?case
    by (simp only: dn dd rowSum.simps last.simps list.simps if_False) (simp add: mult.commute)
qed

lemma nibbleLoop_alphabet:
  assumes "set nibble \<subseteq> set JUNIPER_KEYS_STRING" and "length nibble \<le> length decode"
    and "p \<in> set JUNIPER_KEYS_STRING"
  shows "nibbleLoop decode nibble [p] = (rowSum decode p nibble, [last (p # nibble)])"
  using nibble_fold [OF assms(1,2), of 0 p 0] assms(3) by (simp add: nibbleLoop_def)

lemma juniperLoop_reference:
  "set cs \<subseteq> set JUNIPER_KEYS_STRING \<Longrightarrow> prev \<in> set JUNIPER_KEYS_STRING \<Longrightarrow>
   rowSums (length out) prev cs = Some sums \<Longrightarrow>
   juniperLoop cs [prev] out = out @ concat (map fromCharCode sums)"
proof (induction "length cs" arbitrary: cs prev out sums rule: less_induct)
  case less
  show ?case
  proof (cases "cs = []")
    case True
    with less.prems(3) have "sums = []" by (subst (asm) rowSums.simps) simp
    with True show ?thesis by (subst juniperLoop.simps) simp
  next
    case False
    define row where "row = JUNIPER_ENCODING ! (length out mod 7)"
    define nibble where "nibble = take (length row) cs"
    define remaining where "remaining = drop (length row) cs"
    from less.prems(3) False
    have ok: "\<not> (length cs < length row \<or> row = [])"
      by (subst (asm) rowSums.simps) (auto simp: row_def Let_def split: if_splits)
    from less.prems(3) False ok obtain sums' where
      rec: "rowSums (Suc (length out)) (last nibble) remaining = Some sums'"
      and sums: "sums = rowSum row prev nibble # sums'"
      by (subst (asm) rowSums.simps)
        (auto simp: row_def [symmetric] nibble_def remaining_def Let_def split: option.splits)
    have nn: "nibble \<noteq> []" using ok False by (auto simp: nibble_def)
    have nsub: "set nibble \<subseteq> set JUNIPER_KEYS_STRING"
      using less.prems(1) by (auto simp: nibble_def dest: in_set_takeD)
    have rsub: "set remaining \<subseteq> set JUNIPER_KEYS_STRING"
      using less.prems(1) by (auto simp: remaining_def dest: in_set_dropD)
    have nl: "nibbleLoop row nibble [prev] = (rowSum row prev nibble, [last nibble])"
      using nibbleLoop_alphabet [OF nsub _ less.prems(2), of row] nn
      by (simp add: nibble_def)
    have lastin: "last nibble \<in> set JUNIPER_KEYS_STRING"
      using nsub nn last_in_set by blast
    have shorter: "length remaining < length cs"
      using ok False by (simp add: remaining_def)
    have "juniperLoop cs [prev] out =
          juniperLoop remaining [last nibble] (out @ fromCharCode (rowSum row prev nibble))"
      using False
      by (subst juniperLoop.simps)
        (simp add: Let_def length_JUNIPER_ENCODING row_def [symmetric] substring_prefix
          nibble_def [symmetric] substringFrom_def remaining_def [symmetric] nl)
    also have "\<dots> = (out @ fromCharCode (rowSum row prev nibble)) @ concat (map fromCharCode sums')"
      using rec by (intro less.hyps [OF shorter rsub lastin]) (simp add: fromCharCode_def)
    finally show ?thesis by (simp add: sums)
  qed
qed


lemma juniperGap_range: "- 1 \<le> juniperGap prev c \<and> juniperGap prev c \<le> 63"
proof -
  let ?g = "(int (position c JUNIPER_KEYS_STRING) - int (position prev JUNIPER_KEYS_STRING)) mod 65"
  have a: "0 \<le> ?g" and b: "?g < 65" by simp_all
  show ?thesis unfolding juniperGap_def using a b by linarith
qed

lemma rowSum_range:
  "\<forall>w \<in> set ws. 0 \<le> w \<Longrightarrow>
   - sum_list ws \<le> rowSum ws prev cs \<and> rowSum ws prev cs \<le> 63 * sum_list ws"
proof (induction ws prev cs rule: rowSum.induct)
  case (1 w ws prev c cs)
  then have w: "0 \<le> w" and ih: "- sum_list ws \<le> rowSum ws c cs \<and> rowSum ws c cs \<le> 63 * sum_list ws"
    by simp_all
  have g: "- 1 \<le> juniperGap prev c" "juniperGap prev c \<le> 63"
    using juniperGap_range [of prev c] by simp_all
  have lo: "- w \<le> w * juniperGap prev c"
    using mult_left_mono [OF g(1) w] by simp
  have hi: "w * juniperGap prev c \<le> 63 * w"
    using mult_left_mono [OF g(2) w] by (simp add: mult.commute)
  show ?case using lo hi ih by simp
qed (simp_all add: sum_list_nonneg)

lemma JUNIPER_ENCODING_rows:
  "\<forall>row \<in> set JUNIPER_ENCODING. (\<forall>w \<in> set row. 0 \<le> w) \<and> sum_list row \<le> 149"
  by (simp add: JUNIPER_ENCODING_def)

lemma row_in_table: "JUNIPER_ENCODING ! (n mod 7) \<in> set JUNIPER_ENCODING"
  by (simp add: length_JUNIPER_ENCODING)

lemma rowSums_range:
  "rowSums n prev cs = Some sums \<Longrightarrow> \<forall>v \<in> set sums. - 149 \<le> v \<and> v \<le> 9387"
proof (induction "length cs" arbitrary: n prev cs sums rule: less_induct)
  case less
  show ?case
  proof (cases "cs = []")
    case True
    with less.prems have "sums = []" by (subst (asm) rowSums.simps) simp
    then show ?thesis by simp
  next
    case False
    define row where "row = JUNIPER_ENCODING ! (n mod 7)"
    from less.prems False
    have ok: "\<not> (length cs < length row \<or> row = [])"
      by (subst (asm) rowSums.simps) (auto simp: row_def Let_def split: if_splits)
    from less.prems False ok obtain sums' where
      rec: "rowSums (Suc n) (last (take (length row) cs)) (drop (length row) cs) = Some sums'"
      and sums: "sums = rowSum row prev (take (length row) cs) # sums'"
      by (subst (asm) rowSums.simps)
        (auto simp: row_def [symmetric] Let_def split: option.splits)
    have shorter: "length (drop (length row) cs) < length cs"
      using ok False by simp
    have rest: "\<forall>v \<in> set sums'. - 149 \<le> v \<and> v \<le> 9387"
      using less.hyps [OF shorter rec] .
    have row: "(\<forall>w \<in> set row. 0 \<le> w) \<and> sum_list row \<le> 149"
      using JUNIPER_ENCODING_rows row_in_table [of n] by (simp add: row_def)
    have "- sum_list row \<le> rowSum row prev (take (length row) cs) \<and>
          rowSum row prev (take (length row) cs) \<le> 63 * sum_list row"
      using row by (intro rowSum_range) simp
    with row have "- 149 \<le> rowSum row prev (take (length row) cs) \<and>
                   rowSum row prev (take (length row) cs) \<le> 9387"
      by simp
    with rest show ?thesis by (simp add: sums)
  qed
qed

lemma splitFrom_nonempty: "splitFrom sep piece s \<noteq> []"
  by (induction sep piece s rule: splitFrom.induct) auto

lemma juniperBody_returns:
  assumes "startsWith e (str ''$9$'')"
  shows "\<exists>p. juniperBody e = Inr p"
proof -
  define t where "t = drop (length (str ''$9$'')) e"
  have "take (length (str ''$9$'')) e = str ''$9$''"
    using assms by (simp add: startsWith_def)
  then have e: "e = str ''$9$'' @ t"
    unfolding t_def by (metis append_take_drop_id)
  obtain x xs where "splitFrom (str ''$9$'') [] t = x # xs"
    using splitFrom_nonempty [of "str ''$9$''" "[]" t]
    by (cases "splitFrom (str ''$9$'') [] t") auto
  then have "split e (str ''$9$'') = [] # x # xs"
    by (simp add: e split_def str_def startsWith_def)
  then show ?thesis
    by (simp add: juniperBody_def Let_def)
qed

lemma decryptJuniperType9_prefix_succeeds:
  "startsWith e (str ''$9$'') \<Longrightarrow> \<exists>p. decryptJuniperType9 e = succeeded (JSString p)"
  using juniperBody_returns [of e] by (auto simp: decryptJuniperType9_def)

lemma startsWith_append: "startsWith (p @ s) p"
  by (simp add: startsWith_def)

lemma decryptJuniperType9_reference:
  assumes ne: "rest \<noteq> []" and sub: "set rest \<subseteq> set JUNIPER_KEYS_STRING"
    and ref: "juniperReference rest = Some sums"
  shows "decryptJuniperType9 (str ''$9$'' @ rest) =
         succeeded (JSString (concat (map fromCharCode sums)))"
proof -
  obtain c cs where rest: "rest = c # cs" using ne by (cases rest) auto
  have c: "c \<in> set JUNIPER_KEYS_STRING" using sub rest by simp
  have fam: "JUNIPER_CHARACTER_KEYS [c] = Some (juniperFamily c)"
    using character_keys c by (simp add: list_all_iff)
  have dollar: "36 \<notin> set rest" using sub no_dollar by auto
  have rows: "rowSums 0 c (drop (nat (juniperFamily c + 1)) rest) = Some sums"
    using ref by (simp add: juniperReference_def rest)
  have dsub: "set (drop (nat (juniperFamily c + 1)) rest) \<subseteq> set JUNIPER_KEYS_STRING"
    using sub by (auto dest: in_set_dropD)
  have loop: "juniperLoop (drop (nat (juniperFamily c + 1)) rest) [c] [] =
              [] @ concat (map fromCharCode sums)"
    using rows by (intro juniperLoop_reference dsub c) simp
  have sp: "split (str ''$9$'' @ rest) (str ''$9$'') = [[], rest]"
    by (rule split_juniper [OF dollar])
  have first: "charAt rest 0 = [c]"
    by (simp add: charAt_def rest)
  have body: "juniperBody (str ''$9$'' @ rest) = Inr (concat (map fromCharCode sums))"
    unfolding juniperBody_def sp
    using loop by (simp add: first fam substringFrom_def)
  show ?thesis
    by (simp add: decryptJuniperType9_def startsWith_append body)
qed

lemma uint_fromCharCode:
  "map uint (concat (map fromCharCode sums)) = map (\<lambda>v. v mod 65536) sums"
  by (induction sums) (simp_all add: fromCharCode_def uint_word_of_int)

text \<open>
  C1, as the code has it.  On \<^verbatim>\<open>$9$\<close> followed by a non-empty string of characters of
  the alphabet that align with the rows, the decoder succeeds, and its plaintext has one
  character for each row sum of the reference algorithm: the character whose code is the
  sum reduced modulo \<open>2 ^ 16\<close>, which is the sum itself when no sum is negative.
\<close>

theorem juniper_type9_follows_reference:
  assumes "rest \<noteq> []" and "set rest \<subseteq> set JUNIPER_KEYS_STRING"
    and "juniperReference rest = Some sums"
  shows "decryptJuniperType9 (str ''$9$'' @ rest) =
           \<lparr>success = True, decrypted = Some (JSString (concat (map fromCharCode sums))),
            message = None\<rparr> \<and>
         map uint (concat (map fromCharCode sums)) = map (\<lambda>v. v mod 65536) sums \<and>
         (list_all (\<lambda>v. 0 \<le> v) sums \<longrightarrow> map uint (concat (map fromCharCode sums)) = sums)"
proof -
  obtain c cs where rest: "rest = c # cs" using assms(1) by (cases rest) auto
  have "rowSums 0 c (drop (nat (juniperFamily c + 1)) rest) = Some sums"
    using assms(3) by (simp add: juniperReference_def rest)
  then have bound: "\<forall>v \<in> set sums. - 149 \<le> v \<and> v \<le> 9387"
    by (rule rowSums_range)
  have same: "map (\<lambda>v. v mod 65536) sums = sums" if "list_all (\<lambda>v. 0 \<le> v) sums"
  proof (rule map_idI)
    fix v assume "v \<in> set sums"
    with that bound have "0 \<le> v" "v < 65536" by (auto simp: list_all_iff)
    then show "v mod 65536 = v" by simp
  qed
  show ?thesis
    using decryptJuniperType9_reference [OF assms] same
    by (simp add: succeeded_def uint_fromCharCode)
qed

theorem juniper_type9_follows_reference_witness:
  "str ''iAzF'' \<noteq> [] \<and> list_all (\<lambda>c. c \<in> set JUNIPER_KEYS_STRING) (str ''iAzF'') \<and>
   juniperReference (str ''iAzF'') = Some [242] \<and>
   decryptJuniperType9 (str ''$9$iAzF'') =
     \<lparr>success = True, decrypted = Some (JSString [242]), message = None\<rparr> \<and>
   map uint [242 :: 16 word] = [242]"
proof -
  have ne: "str ''iAzF'' \<noteq> []" by (simp add: str_def)
  have al: "list_all (\<lambda>c. c \<in> set JUNIPER_KEYS_STRING) (str ''iAzF'')"
    by (simp add: str_def JUNIPER_KEYS_STRING_def JUNIPER_KEYS_def)
  then have sub: "set (str ''iAzF'') \<subseteq> set JUNIPER_KEYS_STRING"
    by (auto simp: list_all_iff)
  have ref: "juniperReference (str ''iAzF'') = Some [242]" by code_simp
  have cat: "str ''$9$'' @ str ''iAzF'' = str ''$9$iAzF''" by (simp add: str_def)
  show ?thesis
    using juniper_type9_follows_reference [OF ne sub ref] ne al ref
    by (simp add: cat fromCharCode_def)
qed

text \<open>
  C1, as stated, fails: the code of the emitted character is not always the sum.  After
  \<^verbatim>\<open>$9$\<close>, the string \<^verbatim>\<open>QQQQQQQ\<close> is in the alphabet and aligns with the first row; its
  sum is \<open>-37\<close>, and the decoder emits the character with code \<open>65499\<close>.
\<close>

theorem juniper_type9_negative_sum_wraps:
  "str ''QQQQQQQ'' \<noteq> [] \<and> list_all (\<lambda>c. c \<in> set JUNIPER_KEYS_STRING) (str ''QQQQQQQ'') \<and>
   juniperReference (str ''QQQQQQQ'') = Some [- 37] \<and>
   decryptJuniperType9 (str ''$9$QQQQQQQ'') =
     \<lparr>success = True, decrypted = Some (JSString [65499]), message = None\<rparr> \<and>
   map uint [65499 :: 16 word] \<noteq> [- 37]"
proof -
  have ne: "str ''QQQQQQQ'' \<noteq> []" by (simp add: str_def)
  have al: "list_all (\<lambda>c. c \<in> set JUNIPER_KEYS_STRING) (str ''QQQQQQQ'')"
    by (simp add: str_def JUNIPER_KEYS_STRING_def JUNIPER_KEYS_def)
  then have sub: "set (str ''QQQQQQQ'') \<subseteq> set JUNIPER_KEYS_STRING"
    by (auto simp: list_all_iff)
  have ref: "juniperReference (str ''QQQQQQQ'') = Some [- 37]" by code_simp
  have cat: "str ''$9$'' @ str ''QQQQQQQ'' = str ''$9$QQQQQQQ''" by (simp add: str_def)
  show ?thesis
    using decryptJuniperType9_reference [OF ne sub ref] ne al ref
    by (simp add: cat fromCharCode_def succeeded_def)
qed

text \<open>
  C5 at the input \<^verbatim>\<open>$9$iA!A\<close>, whose third character \<^verbatim>\<open>!\<close> is not in the alphabet: the
  decoder does not fail.  \<^verbatim>\<open>indexOf\<close> gives the position \<open>-1\<close> for it, and the sum
  \<open>18 + 4 * 54 + 32 * 9 = 522\<close> computed from that position is returned with success.
\<close>

theorem juniper_type9_accepts_character_outside_alphabet:
  "\<not> list_all (\<lambda>c. c \<in> set JUNIPER_KEYS_STRING) (str ''iA!A'') \<and>
   indexOf JUNIPER_KEYS_STRING (str ''!'') = - 1 \<and>
   decryptJuniperType9 (str ''$9$iA!A'') =
     \<lparr>success = True, decrypted = Some (JSString [522]), message = None\<rparr>"
proof -
  have "\<not> list_all (\<lambda>c. c \<in> set JUNIPER_KEYS_STRING) (str ''iA!A'')"
    by (simp add: str_def JUNIPER_KEYS_STRING_def JUNIPER_KEYS_def)
  moreover have "indexOf JUNIPER_KEYS_STRING (str ''!'') = - 1"
    by code_simp
  moreover have "decryptJuniperType9 (str ''$9$iA!A'') = succeeded (JSString [522])"
    by code_simp
  ultimately show ?thesis by (simp add: succeeded_def)
qed

text \<open>
  C10.  On the prefix \<^verbatim>\<open>$9$\<close> alone the decoder succeeds with the empty plaintext:
  the piece after the prefix is empty, its first character is the empty string, which has no
  family, the skip count is \<open>NaN\<close>, and the loop does not run.
\<close>

theorem juniper_type9_prefix_alone:
  "split (str ''$9$'') (str ''$9$'') = [[], []] \<and>
   charAt [] 0 = [] \<and> JUNIPER_CHARACTER_KEYS [] = None \<and>
   decryptJuniperType9 (str ''$9$'') =
     \<lparr>success = True, decrypted = Some (JSString []), message = None\<rparr>"
proof -
  have sp: "split (str ''$9$'') (str ''$9$'') = [[], []]"
    by (simp add: split_def str_def startsWith_def)
  have ck: "JUNIPER_CHARACTER_KEYS [] = None"
  proof -
    have four: "[0..<length JUNIPER_KEYS] = [0, 1, 2, 3]"
      by (simp add: JUNIPER_KEYS_def upt_rec)
    show ?thesis
      unfolding JUNIPER_CHARACTER_KEYS_def four
      by (simp add: Let_def fold_character_keys image_iff)
  qed
  have "juniperBody (str ''$9$'') = Inr []"
    by (simp add: juniperBody_def sp charAt_def ck substringFrom_def juniperLoop.simps)
  then have "decryptJuniperType9 (str ''$9$'') = succeeded (JSString [])"
    by (simp add: decryptJuniperType9_def startsWith_def)
  then show ?thesis
    by (simp add: sp ck charAt_def succeeded_def)
qed

section \<open>Properties of the Base64 decoder and of the MD5 lookup\<close>

text \<open>
  C4.  The decoder examines nothing itself: it reports \<^verbatim>\<open>Invalid Base64 format\<close> exactly
  when the library call throws, and returns whatever the library decoded otherwise.
\<close>

theorem base64_fails_only_when_library_throws:
  "(decodeBase64 rt encoded =
      \<lparr>success = False, decrypted = None, message = Some (str ''Invalid Base64 format'')\<rparr>) =
     (\<exists>error. bufferBase64Utf8 rt encoded = Inl error) \<and>
   (decodeBase64 rt encoded =
      \<lparr>success = True, decrypted = Some (JSString decoded), message = None\<rparr>) =
     (bufferBase64Utf8 rt encoded = Inr decoded)"
  by (cases "bufferBase64Utf8 rt encoded") (simp_all add: decodeBase64_def succeeded_def failed_def)

lemma knownHashes_values_nonempty:
  "map_of knownHashes name = Some plaintext \<Longrightarrow> plaintext \<noteq> []"
  by (auto simp: knownHashes_def str_def split: if_splits)

text \<open>
  What the lookup returns: the stored plaintext for a digest of the table, the inherited
  built-in object for a name of \<^verbatim>\<open>Object.prototype\<close>, and the failure otherwise.
\<close>

lemma checkMD5Hash_cases:
  "checkMD5Hash rt hash =
     (case map_of knownHashes (toLowerCase rt hash) of
        Some plaintext \<Rightarrow> succeeded (JSString plaintext)
      | None \<Rightarrow>
          if toLowerCase rt hash \<in> set objectPrototypeNames
          then succeeded (JSBuiltin (toLowerCase rt hash))
          else failed (str ''Hash not found in known passwords database''))"
proof (cases "map_of knownHashes (toLowerCase rt hash)")
  case None
  then show ?thesis
    by (simp add: checkMD5Hash_def getProperty_def truthy_def succeeded_def)
next
  case (Some plaintext)
  then show ?thesis
    using knownHashes_values_nonempty [OF Some]
    by (simp add: checkMD5Hash_def getProperty_def truthy_def succeeded_def)
qed

lemma toLowerCase_ascii:
  "list_all (\<lambda>c. uint c < 128) s \<Longrightarrow> toLowerCase rt s = map asciiLower s"
  by (simp add: toLowerCase_def)

lemma md5_password_vector:
  "checkMD5Hash rt (str ''5f4dcc3b5aa765d61d8327deb882cf99'') = succeeded (JSString (str ''password''))"
proof -
  have "toLowerCase rt (str ''5f4dcc3b5aa765d61d8327deb882cf99'') =
        str ''5f4dcc3b5aa765d61d8327deb882cf99''"
    by (simp add: toLowerCase_def str_def asciiLower_def)
  then show ?thesis
    by (simp add: checkMD5Hash_cases) (simp add: knownHashes_def str_def)
qed

lemma md5_password_vector_upper_case:
  "checkMD5Hash rt (str ''5F4DCC3B5AA765D61D8327DEB882CF99'') = succeeded (JSString (str ''password''))"
proof -
  have "toLowerCase rt (str ''5F4DCC3B5AA765D61D8327DEB882CF99'') =
        str ''5f4dcc3b5aa765d61d8327deb882cf99''"
    by (simp add: toLowerCase_def str_def asciiLower_def)
  then show ?thesis
    by (simp add: checkMD5Hash_cases) (simp add: knownHashes_def str_def)
qed

lemma md5_zeros_vector:
  "checkMD5Hash rt (str ''0000000000000000000000000000000'') =
     failed (str ''Hash not found in known passwords database'')"
proof -
  have "toLowerCase rt (str ''0000000000000000000000000000000'') =
        str ''0000000000000000000000000000000''"
    by (simp add: toLowerCase_def str_def asciiLower_def)
  then show ?thesis
    by (simp add: checkMD5Hash_cases) (simp add: knownHashes_def objectPrototypeNames_def str_def)
qed

text \<open>
  C9 at the input \<^verbatim>\<open>constructor\<close>, which is not a digest of the table: the property read
  \<^verbatim>\<open>knownHashes["constructor"]\<close> finds the function \<^verbatim>\<open>Object\<close> through the prototype,
  and the lookup returns it with success.
\<close>

theorem md5_lookup_reaches_object_prototype:
  "map_of knownHashes (str ''constructor'') = None \<and>
   checkMD5Hash rt (str ''constructor'') =
     \<lparr>success = True, decrypted = Some (JSBuiltin (str ''constructor'')), message = None\<rparr>"
proof -
  have lower: "toLowerCase rt (str ''constructor'') = str ''constructor''"
    by (simp add: toLowerCase_def str_def asciiLower_def)
  have miss: "map_of knownHashes (str ''constructor'') = None"
    by (simp add: knownHashes_def str_def)
  have inherited: "str ''constructor'' \<in> set objectPrototypeNames"
    by (simp add: objectPrototypeNames_def)
  show ?thesis
    by (simp add: checkMD5Hash_cases lower miss inherited succeeded_def)
qed

section \<open>Properties of the dispatcher\<close>

lemma result_shape_succeeded:
  "success (succeeded v) \<and> decrypted (succeeded v) \<noteq> None \<and> message (succeeded v) = None"
  by (simp add: succeeded_def)

lemma result_shape_failed:
  "\<not> success (failed m) \<and> decrypted (failed m) = None \<and> message (failed m) \<noteq> None"
  by (simp add: failed_def)

lemma decryptCiscoType7_shape:
  "(\<exists>v. decryptCiscoType7 e = succeeded v) \<or> (\<exists>m. decryptCiscoType7 e = failed m)"
  by (auto simp: decryptCiscoType7_def)

lemma decryptJuniperType9_shape:
  "(\<exists>v. decryptJuniperType9 e = succeeded v) \<or> (\<exists>m. decryptJuniperType9 e = failed m)"
  by (auto simp: decryptJuniperType9_def split: sum.splits jserror.splits)

lemma decodeBase64_shape:
  "(\<exists>v. decodeBase64 rt e = succeeded v) \<or> (\<exists>m. decodeBase64 rt e = failed m)"
  by (auto simp: decodeBase64_def split: sum.splits)

lemma checkMD5Hash_shape:
  "(\<exists>v. checkMD5Hash rt e = succeeded v) \<or> (\<exists>m. checkMD5Hash rt e = failed m)"
  by (auto simp: checkMD5Hash_cases split: option.splits)

lemma passwordDecrypt_shape:
  "(\<exists>v. passwordDecrypt rt vendorType e = succeeded v) \<or>
   (\<exists>m. passwordDecrypt rt vendorType e = failed m)"
  using decryptCiscoType7_shape [of e] decryptJuniperType9_shape [of e]
    decodeBase64_shape [of rt e] checkMD5Hash_shape [of rt e]
  by (auto simp: passwordDecrypt_def)

text \<open>
  In every result of the dispatcher exactly one of \<^verbatim>\<open>decrypted\<close> and \<^verbatim>\<open>message\<close> is
  present: \<^verbatim>\<open>decrypted\<close> when \<^verbatim>\<open>success\<close> is true, \<^verbatim>\<open>message\<close> when it is false.
\<close>

lemma passwordDecrypt_fields_tied_to_success:
  "success (passwordDecrypt rt vendorType encryptedPassword) =
     (decrypted (passwordDecrypt rt vendorType encryptedPassword) \<noteq> None) \<and>
   success (passwordDecrypt rt vendorType encryptedPassword) =
     (message (passwordDecrypt rt vendorType encryptedPassword) = None)"
  using passwordDecrypt_shape [of rt vendorType encryptedPassword]
  by (auto simp: succeeded_def failed_def)

text \<open>
  The value of \<^verbatim>\<open>decrypted\<close> is a string in every successful result, except where the
  MD5 lookup reaches \<^verbatim>\<open>Object.prototype\<close>.
\<close>

lemma decryptCiscoType7_plaintext_is_string:
  "success (decryptCiscoType7 e) \<Longrightarrow> \<exists>plaintext. decrypted (decryptCiscoType7 e) = Some (JSString plaintext)"
  by (auto simp: decryptCiscoType7_def succeeded_def failed_def split: if_splits)

lemma decryptJuniperType9_plaintext_is_string:
  "success (decryptJuniperType9 e) \<Longrightarrow>
   \<exists>plaintext. decrypted (decryptJuniperType9 e) = Some (JSString plaintext)"
  by (auto simp: decryptJuniperType9_def succeeded_def failed_def
      split: if_splits sum.splits jserror.splits)

lemma decodeBase64_plaintext_is_string:
  "success (decodeBase64 rt e) \<Longrightarrow> \<exists>plaintext. decrypted (decodeBase64 rt e) = Some (JSString plaintext)"
  by (auto simp: decodeBase64_def succeeded_def failed_def split: sum.splits)

lemma checkMD5Hash_plaintext_is_string:
  assumes "success (checkMD5Hash rt e)"
    and "\<not> (map_of knownHashes (toLowerCase rt e) = None \<and>
             toLowerCase rt e \<in> set objectPrototypeNames)"
  shows "\<exists>plaintext. decrypted (checkMD5Hash rt e) = Some (JSString plaintext)"
  using assms
  by (cases "map_of knownHashes (toLowerCase rt e)")
    (auto simp: checkMD5Hash_cases succeeded_def failed_def split: if_splits)

lemma passwordDecrypt_plaintext_is_string:
  assumes ok: "success (passwordDecrypt rt vendorType encryptedPassword)"
    and other: "\<not> (vendorType = str ''generic-md5'' \<and>
             map_of knownHashes (toLowerCase rt encryptedPassword) = None \<and>
             toLowerCase rt encryptedPassword \<in> set objectPrototypeNames)"
  shows "\<exists>plaintext. decrypted (passwordDecrypt rt vendorType encryptedPassword) =
           Some (JSString plaintext)"
proof -
  consider (cisco) "vendorType = str ''cisco-type7''"
    | (juniper) "vendorType \<noteq> str ''cisco-type7''" "vendorType = str ''juniper-type9''"
    | (base64) "vendorType \<noteq> str ''cisco-type7''" "vendorType \<noteq> str ''juniper-type9''"
        "vendorType = str ''base64''"
    | (md5) "vendorType \<noteq> str ''cisco-type7''" "vendorType \<noteq> str ''juniper-type9''"
        "vendorType \<noteq> str ''base64''" "vendorType = str ''generic-md5''"
    | (unknown) "vendorType \<noteq> str ''cisco-type7''" "vendorType \<noteq> str ''juniper-type9''"
        "vendorType \<noteq> str ''base64''" "vendorType \<noteq> str ''generic-md5''"
    by blast
  then show ?thesis
  proof cases
    case cisco
    then have eq: "passwordDecrypt rt vendorType encryptedPassword =
        decryptCiscoType7 encryptedPassword"
      by (simp add: passwordDecrypt_def)
    show ?thesis
      using ok decryptCiscoType7_plaintext_is_string [of encryptedPassword]
      by (simp add: eq)
  next
    case juniper
    then have eq: "passwordDecrypt rt vendorType encryptedPassword =
        decryptJuniperType9 encryptedPassword"
      by (simp add: passwordDecrypt_def)
    show ?thesis
      using ok decryptJuniperType9_plaintext_is_string [of encryptedPassword]
      by (simp add: eq)
  next
    case base64
    then have eq: "passwordDecrypt rt vendorType encryptedPassword =
        decodeBase64 rt encryptedPassword"
      by (simp add: passwordDecrypt_def)
    show ?thesis
      using ok decodeBase64_plaintext_is_string [of rt encryptedPassword]
      by (simp add: eq)
  next
    case md5
    then have eq: "passwordDecrypt rt vendorType encryptedPassword =
        checkMD5Hash rt encryptedPassword"
      by (simp add: passwordDecrypt_def)
    have "\<not> (map_of knownHashes (toLowerCase rt encryptedPassword) = None \<and>
             toLowerCase rt encryptedPassword \<in> set objectPrototypeNames)"
      using other md5(4) by blast
    then show ?thesis
      using ok checkMD5Hash_plaintext_is_string [of rt encryptedPassword]
      by (simp add: eq)
  next
    case unknown
    then have "passwordDecrypt rt vendorType encryptedPassword =
        failed (str ''Unsupported encryption type'')"
      by (simp add: passwordDecrypt_def)
    with ok show ?thesis by (simp add: failed_def)
  qed
qed

lemma checkMD5Hash_constructor:
  "checkMD5Hash rt (str ''constructor'') = succeeded (JSBuiltin (str ''constructor''))"
proof -
  have lower: "toLowerCase rt (str ''constructor'') = str ''constructor''"
    by (simp add: toLowerCase_def str_def asciiLower_def)
  have miss: "map_of knownHashes (str ''constructor'') = None"
    by (simp add: knownHashes_def str_def)
  have inherited: "str ''constructor'' \<in> set objectPrototypeNames"
    by (simp add: objectPrototypeNames_def)
  show ?thesis
    by (simp add: checkMD5Hash_cases lower miss inherited)
qed

text \<open>
  C7 at the scheme \<^verbatim>\<open>generic-md5\<close> and the input \<^verbatim>\<open>constructor\<close>: the dispatcher returns
  a result with \<^verbatim>\<open>success\<close> true whose \<^verbatim>\<open>decrypted\<close> is the function \<^verbatim>\<open>Object\<close>, so
  that no plaintext string is present in it.
\<close>

theorem passwordDecrypt_success_without_plaintext:
  "passwordDecrypt rt (str ''generic-md5'') (str ''constructor'') =
     \<lparr>success = True, decrypted = Some (JSBuiltin (str ''constructor'')), message = None\<rparr> \<and>
   (\<nexists>plaintext. decrypted (passwordDecrypt rt (str ''generic-md5'') (str ''constructor'')) =
      Some (JSString plaintext))"
proof -
  have names: "str ''generic-md5'' \<noteq> str ''cisco-type7''"
    "str ''generic-md5'' \<noteq> str ''juniper-type9''" "str ''generic-md5'' \<noteq> str ''base64''"
    by (simp_all add: str_def)
  have "passwordDecrypt rt (str ''generic-md5'') (str ''constructor'') =
        checkMD5Hash rt (str ''constructor'')"
    by (simp add: passwordDecrypt_def names)
  then show ?thesis
    by (simp add: checkMD5Hash_constructor succeeded_def)
qed


lemma decryptCiscoType7E_eq: "decryptCiscoType7E e = Inr (decryptCiscoType7 e)"
  by (simp add: decryptCiscoType7E_def decryptCiscoType7_def tryCatch_def)

lemma decryptJuniperType9E_eq: "decryptJuniperType9E e = Inr (decryptJuniperType9 e)"
proof (cases "juniperBody e")
  case (Inl error)
  then show ?thesis
    by (cases error) (simp add: decryptJuniperType9E_def decryptJuniperType9_def tryCatch_def)
next
  case (Inr decryptedPassword)
  then show ?thesis
    by (simp add: decryptJuniperType9E_def decryptJuniperType9_def tryCatch_def)
qed

lemma decodeBase64E_eq: "decodeBase64E rt e = Inr (decodeBase64 rt e)"
  by (cases "bufferBase64Utf8 rt e") (simp_all add: decodeBase64E_def decodeBase64_def tryCatch_def)

lemma passwordDecryptE_eq:
  "passwordDecryptE rt vendorType e = Inr (passwordDecrypt rt vendorType e)"
  by (simp add: passwordDecryptE_def passwordDecrypt_def decryptCiscoType7E_eq
      decryptJuniperType9E_eq decodeBase64E_eq checkMD5HashE_def)




end
